theory Spec2Isabelle
  imports Main "HOL-Library.Word"
begin

section \<open>JavaScript values\<close>

text \<open>
  A JavaScript string is a sequence of 16-bit code units; \<open>length\<close> counts code units, as
  \<open>String.prototype.length\<close> does. \<open>js\<close> writes an ASCII literal as code units.
\<close>

type_synonym jschar = "16 word"
type_synonym jsstring = "jschar list"

definition js :: "string \<Rightarrow> jsstring" where
  "js cs = map of_char cs"

text \<open>
  A number is \<open>NaN\<close>, an infinity or an integer. The limits of \<open>trimText\<close> are lengths and
  counts; on integers below \<open>2 ^ 53\<close> (every string length is) comparison, truthiness,
  subtraction of a string length and truncation to an index are exact in binary64, so the
  operations below compute what the engine computes. Finite numbers with a fractional part are
  not represented.
\<close>

datatype jsnum = NaN | PosInf | NegInf | Num int

text \<open>
  \<open>JObj\<close> stands for every value that is none of the others (objects, functions, symbols,
  bigints): its \<open>typeof\<close> is neither \<open>'string'\<close> nor \<open>'number'\<close>, it is truthy and it is not
  an array.
\<close>

datatype jsval =
    JUndefined
  | JNull
  | JBool bool
  | JNum jsnum
  | JStr jsstring
  | JArr "jsval list"
  | JObj

text \<open>ToBoolean: \<open>!v\<close> is \<open>\<not> truthy v\<close>.\<close>

fun truthy :: "jsval \<Rightarrow> bool" where
  "truthy JUndefined = False"
| "truthy JNull = False"
| "truthy (JBool b) = b"
| "truthy (JNum NaN) = False"
| "truthy (JNum (Num k)) = (k \<noteq> 0)"
| "truthy (JNum _) = True"
| "truthy (JStr s) = (s \<noteq> [])"
| "truthy (JArr _) = True"
| "truthy JObj = True"

text \<open>\<open>a <= b\<close> on numbers: false as soon as one side is \<open>NaN\<close>.\<close>

fun num_le :: "jsnum \<Rightarrow> jsnum \<Rightarrow> bool" where
  "num_le NaN b = False"
| "num_le a NaN = False"
| "num_le NegInf b = True"
| "num_le a PosInf = True"
| "num_le PosInf b = False"
| "num_le a NegInf = False"
| "num_le (Num a) (Num b) = (a \<le> b)"

text \<open>\<open>a - b\<close> on numbers.\<close>

fun num_sub :: "jsnum \<Rightarrow> jsnum \<Rightarrow> jsnum" where
  "num_sub NaN b = NaN"
| "num_sub a NaN = NaN"
| "num_sub PosInf PosInf = NaN"
| "num_sub NegInf NegInf = NaN"
| "num_sub PosInf b = PosInf"
| "num_sub NegInf b = NegInf"
| "num_sub (Num a) PosInf = NegInf"
| "num_sub (Num a) NegInf = PosInf"
| "num_sub (Num a) (Num b) = Num (a - b)"

text \<open>The number a value holds; the code reads a limit as a number only where it is one.\<close>

fun num_of :: "jsval \<Rightarrow> jsnum" where
  "num_of (JNum n) = n"
| "num_of _ = NaN"

text \<open>The \<open>length\<close> property, as a number.\<close>

definition len :: "'a list \<Rightarrow> jsnum" where
  "len xs = Num (int (length xs))"

section \<open>Built-in string and array operations\<close>

text \<open>
  \<open>slice(start, end)\<close> of strings and arrays: an argument is turned into an integer or an
  infinity (\<open>NaN\<close> is 0), a negative one counts from the end, and both are clamped to the
  length.
\<close>

fun rel_index :: "nat \<Rightarrow> jsnum \<Rightarrow> nat" where
  "rel_index n NaN = 0"
| "rel_index n NegInf = 0"
| "rel_index n PosInf = n"
| "rel_index n (Num k) = (if k < 0 then nat (max (int n + k) 0) else min (nat k) n)"

definition js_slice :: "'a list \<Rightarrow> jsnum \<Rightarrow> jsnum \<Rightarrow> 'a list" where
  "js_slice xs start fin =
     (let from = rel_index (length xs) start; to = rel_index (length xs) fin
      in take (to - from) (drop from xs))"

text \<open>
  \<open>s.lastIndexOf(p)\<close> with no position: the candidates \<open>i\<close> run downwards from
  \<open>length s - length p\<close>, the first one where \<open>p\<close> stands is returned, and -1 when there is
  none.
\<close>

fun last_from :: "jsstring \<Rightarrow> jsstring \<Rightarrow> nat \<Rightarrow> int" where
  "last_from s p 0 = (if take (length p) s = p then 0 else - 1)"
| "last_from s p (Suc i) =
     (if take (length p) (drop (Suc i) s) = p then int (Suc i) else last_from s p i)"

definition lastIndexOf :: "jsstring \<Rightarrow> jsstring \<Rightarrow> int" where
  "lastIndexOf s p = (if length s < length p then - 1 else last_from s p (length s - length p))"

text \<open>\<open>xs.join(sep)\<close> on an array of strings.\<close>

fun js_join :: "jsstring \<Rightarrow> jsstring list \<Rightarrow> jsstring" where
  "js_join sep [] = []"
| "js_join sep [x] = x"
| "js_join sep (x # y # ys) = x @ sep @ js_join sep (y # ys)"

section \<open>Regular expressions\<close>

text \<open>
  A regular expression is modelled by its matcher: \<open>m s i\<close> is the length of the match of the
  pattern in \<open>s\<close> that starts exactly at index \<open>i\<close>, or \<open>None\<close>. None of the patterns of the
  program has a capture group.
\<close>

type_synonym matcher = "jsstring \<Rightarrow> nat \<Rightarrow> nat option"

text \<open>
  \<open>\s\<close>: the white space and line terminator code units of ECMAScript (TAB, LF, VT, FF, CR,
  the space separators of Unicode, LS, PS and the byte order mark).
\<close>

definition is_space :: "jschar \<Rightarrow> bool" where
  "is_space c =
     (c = 0x9 \<or> c = 0xA \<or> c = 0xB \<or> c = 0xC \<or> c = 0xD \<or> c = 0x20 \<or> c = 0xA0 \<or>
      c = 0x1680 \<or> (0x2000 \<le> c \<and> c \<le> 0x200A) \<or> c = 0x2028 \<or> c = 0x2029 \<or>
      c = 0x202F \<or> c = 0x205F \<or> c = 0x3000 \<or> c = 0xFEFF)"

text \<open>\<open>/\s+/\<close>: the longest run of white space at \<open>i\<close>, which must not be empty.\<close>

definition re_ws :: matcher where
  "re_ws s i =
     (let run = takeWhile is_space (drop i s)
      in if run = [] then None else Some (length run))"

text \<open>
  \<open>/<[^>]+>/\<close>: a \<open><\<close>, then the longest run of code units other than \<open>>\<close>, which must not
  be empty, then a \<open>>\<close>. A shorter run is followed by a code unit of the run, never by \<open>>\<close>,
  so backtracking finds no other match.
\<close>

definition re_tag :: matcher where
  "re_tag s i =
     (if i < length s \<and> s ! i = 0x3C
      then (let body = takeWhile (\<lambda>c. c \<noteq> 0x3E) (drop (Suc i) s)
            in if body \<noteq> [] \<and> Suc i + length body < length s
               then Some (length body + 2) else None)
      else None)"

text \<open>The code units of the class \<open>[.*+?^${}()|[\]\\]\<close>.\<close>

definition syntax_char :: "jschar \<Rightarrow> bool" where
  "syntax_char c = (c \<in> set (js ''.*+?^${}()|[]'') \<or> c = 0x5C)"

definition re_syntax :: matcher where
  "re_syntax s i = (if i < length s \<and> syntax_char (s ! i) then Some 1 else None)"

text \<open>
  GetSubstitution for a pattern with no capture group: in the replacement template \<open>$$\<close> is a
  dollar sign, \<open>$&\<close> the matched text, \<open>$`\<close> the text before the match and \<open>$'\<close> the text after
  it; every other \<open>$\<close> (also one before a digit or \<open><\<close>) stands for itself.
\<close>

fun get_substitution :: "jsstring \<Rightarrow> jsstring \<Rightarrow> nat \<Rightarrow> jsstring \<Rightarrow> jsstring" where
  "get_substitution matched s pos (c # d # t) =
     (if c = 0x24 \<and> d = 0x24 then 0x24 # get_substitution matched s pos t
      else if c = 0x24 \<and> d = 0x26 then matched @ get_substitution matched s pos t
      else if c = 0x24 \<and> d = 0x60 then take pos s @ get_substitution matched s pos t
      else if c = 0x24 \<and> d = 0x27
        then drop (pos + length matched) s @ get_substitution matched s pos t
      else c # get_substitution matched s pos (d # t))"
| "get_substitution matched s pos t = t"

text \<open>
  The matches a global pattern finds from \<open>lastIndex = i\<close> on, as (index, length): the search
  tries each index in turn; after a match it resumes at the end of the match, one further on
  when the match is empty.
\<close>

function match_all :: "matcher \<Rightarrow> jsstring \<Rightarrow> nat \<Rightarrow> (nat \<times> nat) list" where
  "match_all m s i =
     (if length s < i then []
      else case m s i of
             None \<Rightarrow> match_all m s (Suc i)
           | Some n \<Rightarrow> (i, n) # match_all m s (if n = 0 then Suc i else i + n))"
  by pat_completeness auto
termination
  by (relation "measure (\<lambda>(m, s, i). Suc (length s) - i)") auto

declare match_all.simps [simp del]

text \<open>
  The result of a replacement: the text between the matches is kept and each match gives way
  to its substitution; \<open>next\<close> is the index up to which the source is consumed.
\<close>

fun substitute :: "jsstring \<Rightarrow> jsstring \<Rightarrow> nat \<Rightarrow> (nat \<times> nat) list \<Rightarrow> jsstring" where
  "substitute s tmpl next [] = drop next s"
| "substitute s tmpl next ((p, n) # ms) =
     (if next \<le> p
      then take (p - next) (drop next s)
           @ get_substitution (take n (drop p s)) s p tmpl
           @ substitute s tmpl (p + n) ms
      else substitute s tmpl next ms)"

text \<open>\<open>s.replace(re, tmpl)\<close> for a pattern with the \<open>g\<close> flag and a string \<open>tmpl\<close>.\<close>

definition replace_global :: "matcher \<Rightarrow> jsstring \<Rightarrow> jsstring \<Rightarrow> jsstring" where
  "replace_global m tmpl s = substitute s tmpl 0 (match_all m s 0)"

text \<open>
  \<open>s.split(re)\<close>: \<open>p\<close> is the start of the current piece and \<open>q\<close> the index where the
  separator is tried next. A separator match that ends at \<open>p\<close> is skipped. The empty string
  gives one empty piece unless the separator matches it. (The default limit of \<open>2 ^ 32 - 1\<close>
  pieces is not modelled.)
\<close>

function split_loop :: "matcher \<Rightarrow> jsstring \<Rightarrow> nat \<Rightarrow> nat \<Rightarrow> jsstring list" where
  "split_loop m s p q =
     (if length s \<le> q then [drop p s]
      else case m s q of
             None \<Rightarrow> split_loop m s p (Suc q)
           | Some n \<Rightarrow>
               (let e = min (q + n) (length s)
                in if e = p then split_loop m s p (Suc q)
                   else take (q - p) (drop p s) # split_loop m s e e))"
  by pat_completeness auto
termination
  by (relation "measure (\<lambda>(m, s, p, q). 2 * (length s - q) + (if p = q then 0 else 1))")
     (auto split: if_splits)

declare split_loop.simps [simp del]

definition js_split :: "matcher \<Rightarrow> jsstring \<Rightarrow> jsstring list" where
  "js_split m s =
     (if s = [] then (case m s 0 of None \<Rightarrow> [s] | Some n \<Rightarrow> [])
      else split_loop m s 0 0)"

section \<open>trimText\<close>

text \<open>
  The errors. The source throws a \<open>TypeError\<close> in both cases and tells them apart by the
  message: \<open>InvalidInput\<close> is \<open>'Input must be a string'\<close> (\<open>'Input text must be a string'\<close> in
  \<open>highlightText\<close>), \<open>InvalidOption\<close> is \<open>'Max length must be a positive number'\<close> or
  \<open>'Max words must be a positive number'\<close>. \<open>UnsupportedPattern\<close> is not an error of the source:
  it marks a pattern outside the fragment of regular expressions modelled below, and
  \<open>forEach_term_supported\<close> shows that \<open>highlightText\<close> never builds one.
\<close>

datatype error = InvalidInput | InvalidOption | UnsupportedPattern

text \<open>
  The options object. A field that is absent is \<open>JUndefined\<close> (\<open>None\<close> for the ellipsis, which
  is a string when present); the destructuring gives \<open>ellipsis\<close>, \<open>respectWordBoundaries\<close> and
  \<open>stripHTML\<close> their defaults exactly then.
\<close>

record trim_options =
  maxLength :: jsval
  maxWords :: jsval
  ellipsis :: "jsstring option"
  respectWordBoundaries :: jsval
  stripHTML :: jsval

definition no_options :: trim_options where
  "no_options = \<lparr> maxLength = JUndefined, maxWords = JUndefined, ellipsis = None,
     respectWordBoundaries = JUndefined, stripHTML = JUndefined \<rparr>"

definition js_default :: "jsval \<Rightarrow> jsval \<Rightarrow> jsval" where
  "js_default d v = (if v = JUndefined then d else v)"

definition ellipsis_of :: "trim_options \<Rightarrow> jsstring" where
  "ellipsis_of options = (case ellipsis options of None \<Rightarrow> js ''...'' | Some e \<Rightarrow> e)"

text \<open>\<open>v !== undefined && (typeof v !== 'number' || v <= 0)\<close>\<close>

definition invalid_limit :: "jsval \<Rightarrow> bool" where
  "invalid_limit v =
     (v \<noteq> JUndefined \<and> ((case v of JNum n \<Rightarrow> False | _ \<Rightarrow> True) \<or> num_le (num_of v) (Num 0)))"

text \<open>The working text: the input, without its \<open><...>\<close> spans when \<open>stripHTML\<close> is set.\<close>

definition working_text :: "trim_options \<Rightarrow> jsstring \<Rightarrow> jsstring" where
  "working_text options t =
     (if truthy (js_default (JBool False) (stripHTML options))
      then replace_global re_tag [] t else t)"

definition trimText :: "jsval \<Rightarrow> trim_options \<Rightarrow> error + jsstring" where
  "trimText text options =
     (case text of
        JStr t \<Rightarrow>
          if invalid_limit (maxLength options) then Inl InvalidOption
          else if invalid_limit (maxWords options) then Inl InvalidOption
          else if \<not> truthy (maxLength options) \<and> \<not> truthy (maxWords options) then Inr t
          else
            (let processedText = working_text options t in
             if truthy (maxWords options)
             then (let words = js_split re_ws processedText in
                   if num_le (len words) (num_of (maxWords options)) then Inr processedText
                   else Inr (js_join (js '' '')
                               (js_slice words (Num 0) (num_of (maxWords options)))
                             @ ellipsis_of options))
             else if num_le (len processedText) (num_of (maxLength options))
             then Inr processedText
             else
               (let trimmedText =
                      js_slice processedText (Num 0)
                        (num_sub (num_of (maxLength options)) (len (ellipsis_of options)));
                    trimmedText =
                      (if truthy (js_default (JBool True) (respectWordBoundaries options))
                       then (let lastSpaceIndex = lastIndexOf trimmedText (js '' '')
                             in if lastSpaceIndex \<noteq> - 1
                                then js_slice trimmedText (Num 0) (Num lastSpaceIndex)
                                else trimmedText)
                       else trimmedText)
                in Inr (trimmedText @ ellipsis_of options)))
      | _ \<Rightarrow> Inl InvalidInput)"

section \<open>escapeRegExp\<close>

text \<open>The template \<open>'\\$&'\<close> is a backslash followed by \<open>$&\<close>.\<close>

definition escapeRegExp :: "jsstring \<Rightarrow> jsstring" where
  "escapeRegExp string = replace_global re_syntax (0x5C # js ''$&'') string"

section \<open>Patterns built at run time\<close>

text \<open>
  \<open>new RegExp(source, flags)\<close> for the patterns \<open>highlightText\<close> builds: a sequence of literal
  code units, written as themselves or, for a syntax character, after a backslash, and of
  \<open>\b\<close> assertions. Every other source (an unescaped syntax character, another escape) is
  outside this fragment and gives \<open>None\<close>. The flags are \<open>'g'\<close> or \<open>'gi'\<close>.
\<close>

datatype atom = Lit jschar | WordBoundary

fun parse_pattern :: "jsstring \<Rightarrow> atom list option" where
  "parse_pattern [] = Some []"
| "parse_pattern [c] = (if syntax_char c then None else Some [Lit c])"
| "parse_pattern (c # d # t) =
     (if c = 0x5C
      then (if d = 0x62 then map_option ((#) WordBoundary) (parse_pattern t)
            else if syntax_char d then map_option ((#) (Lit d)) (parse_pattern t)
            else None)
      else if syntax_char c then None
      else map_option ((#) (Lit c)) (parse_pattern (d # t)))"

record regexp =
  atoms :: "atom list"
  ignoreCase :: bool

definition RegExp_new :: "jsstring \<Rightarrow> jsstring \<Rightarrow> regexp option" where
  "RegExp_new source flags =
     map_option (\<lambda>as. \<lparr> atoms = as, ignoreCase = (0x69 \<in> set flags) \<rparr>) (parse_pattern source)"

text \<open>
  Canonicalize, for a pattern without the \<open>u\<close> flag: under \<open>i\<close> a code unit is compared through
  the host's upper-case mapping \<open>uc\<close> of single code units (the Unicode table is the host's,
  so it is a parameter here); without \<open>i\<close> it is compared as it is.
\<close>

definition canonicalize :: "(jschar \<Rightarrow> jschar) \<Rightarrow> bool \<Rightarrow> jschar \<Rightarrow> jschar" where
  "canonicalize uc ic c = (if ic then uc c else c)"

text \<open>
  The mapping on ASCII, where every host agrees: \<open>a\<close> to \<open>z\<close> go to \<open>A\<close> to \<open>Z\<close>. It stands
  for \<open>uc\<close> in the concrete examples, whose texts and terms are ASCII.
\<close>

definition ascii_upper :: "jschar \<Rightarrow> jschar" where
  "ascii_upper c = (if 0x61 \<le> c \<and> c \<le> 0x7A then c - 0x20 else c)"

text \<open>
  \<open>\b\<close> holds at index \<open>i\<close> when exactly one of the code units before and at \<open>i\<close> is a word
  character \<open>[A-Za-z0-9_]\<close>; beyond either end of the input there is none.
\<close>

definition is_word_char :: "jschar \<Rightarrow> bool" where
  "is_word_char c =
     ((0x61 \<le> c \<and> c \<le> 0x7A) \<or> (0x41 \<le> c \<and> c \<le> 0x5A) \<or> (0x30 \<le> c \<and> c \<le> 0x39)
      \<or> c = 0x5F)"

definition word_at :: "jsstring \<Rightarrow> nat \<Rightarrow> bool" where
  "word_at s i = (i < length s \<and> is_word_char (s ! i))"

definition word_before :: "jsstring \<Rightarrow> nat \<Rightarrow> bool" where
  "word_before s i = (0 < i \<and> word_at s (i - 1))"

definition at_boundary :: "jsstring \<Rightarrow> nat \<Rightarrow> bool" where
  "at_boundary s i = (word_before s i \<noteq> word_at s i)"

text \<open>The index where a match of the atoms that starts at \<open>i\<close> ends.\<close>

fun match_atoms ::
  "(jschar \<Rightarrow> jschar) \<Rightarrow> bool \<Rightarrow> atom list \<Rightarrow> jsstring \<Rightarrow> nat \<Rightarrow> nat option" where
  "match_atoms uc ic [] s i = Some i"
| "match_atoms uc ic (Lit c # as) s i =
     (if i < length s \<and> canonicalize uc ic (s ! i) = canonicalize uc ic c
      then match_atoms uc ic as s (Suc i) else None)"
| "match_atoms uc ic (WordBoundary # as) s i =
     (if at_boundary s i then match_atoms uc ic as s i else None)"

definition re_exec :: "(jschar \<Rightarrow> jschar) \<Rightarrow> regexp \<Rightarrow> matcher" where
  "re_exec uc regex s i =
     map_option (\<lambda>e. e - i) (match_atoms uc (ignoreCase regex) (atoms regex) s i)"

section \<open>highlightText\<close>

record highlight_options =
  highlightStart :: "jsstring option"
  highlightEnd :: "jsstring option"
  caseSensitive :: jsval
  wholeWords :: jsval

definition no_highlight_options :: highlight_options where
  "no_highlight_options = \<lparr> highlightStart = None, highlightEnd = None,
     caseSensitive = JUndefined, wholeWords = JUndefined \<rparr>"

definition highlightStart_of :: "highlight_options \<Rightarrow> jsstring" where
  "highlightStart_of options =
     (case highlightStart options of None \<Rightarrow> js ''<mark>'' | Some h \<Rightarrow> h)"

definition highlightEnd_of :: "highlight_options \<Rightarrow> jsstring" where
  "highlightEnd_of options =
     (case highlightEnd options of None \<Rightarrow> js ''</mark>'' | Some h \<Rightarrow> h)"

text \<open>The pattern source and the flags the callback builds for a term.\<close>

definition term_source :: "highlight_options \<Rightarrow> jsstring \<Rightarrow> jsstring" where
  "term_source options term =
     (if truthy (js_default (JBool False) (wholeWords options))
      then [0x5C, 0x62] @ escapeRegExp term @ [0x5C, 0x62]
      else escapeRegExp term)"

definition term_flags :: "highlight_options \<Rightarrow> jsstring" where
  "term_flags options =
     (if truthy (js_default (JBool False) (caseSensitive options)) then js ''g'' else js ''gi'')"

text \<open>
  The \<open>forEach\<close> over the term list, \<open>result\<close> being the variable the callback assigns. A
  pattern outside the modelled fragment ends it with \<open>UnsupportedPattern\<close>.
\<close>

fun forEach_term ::
  "(jschar \<Rightarrow> jschar) \<Rightarrow> highlight_options \<Rightarrow> jsval list \<Rightarrow> jsstring \<Rightarrow> error + jsstring" where
  "forEach_term uc options [] result = Inr result"
| "forEach_term uc options (JStr term # rest) result =
     (if term = [] then forEach_term uc options rest result
      else case RegExp_new (term_source options term) (term_flags options) of
             None \<Rightarrow> Inl UnsupportedPattern
           | Some regex \<Rightarrow>
               forEach_term uc options rest
                 (replace_global (re_exec uc regex)
                    (highlightStart_of options @ js ''$&'' @ highlightEnd_of options) result))"
| "forEach_term uc options (term # rest) result = forEach_term uc options rest result"

text \<open>\<open>Array.isArray(terms) ? terms : [terms]\<close>\<close>

definition termList :: "jsval \<Rightarrow> jsval list" where
  "termList terms = (case terms of JArr ts \<Rightarrow> ts | _ \<Rightarrow> [terms])"

definition highlightText ::
  "(jschar \<Rightarrow> jschar) \<Rightarrow> jsval \<Rightarrow> jsval \<Rightarrow> highlight_options \<Rightarrow> error + jsstring" where
  "highlightText uc text terms options =
     (case text of
        JStr t \<Rightarrow>
          if \<not> truthy terms \<or> terms = JArr [] then Inr t
          else forEach_term uc options (termList terms) t
      | _ \<Rightarrow> Inl InvalidInput)"

section \<open>Definitions for stating the properties\<close>





text \<open>
  A term occurs in \<open>s\<close> at index \<open>i\<close> under the options: its code units stand there, compared
  through the upper-case mapping unless \<open>caseSensitive\<close> is set, and with \<open>wholeWords\<close> the
  occurrence starts and ends at a word boundary.
\<close>

definition occurs_at ::
  "(jschar \<Rightarrow> jschar) \<Rightarrow> highlight_options \<Rightarrow> jsstring \<Rightarrow> jsstring \<Rightarrow> nat \<Rightarrow> bool" where
  "occurs_at uc options term s i =
     (let ic = \<not> truthy (js_default (JBool False) (caseSensitive options))
      in map (canonicalize uc ic) (take (length term) (drop i s)) = map (canonicalize uc ic) term
         \<and> (truthy (js_default (JBool False) (wholeWords options))
              \<longrightarrow> at_boundary s i \<and> at_boundary s (i + length term)))"

text \<open>A positive number: a positive integer or \<open>+Infinity\<close>.\<close>

definition positive :: "jsnum \<Rightarrow> bool" where
  "positive n = (case n of Num k \<Rightarrow> 0 < k | PosInf \<Rightarrow> True | _ \<Rightarrow> False)"

section \<open>Properties of trimText\<close>

text \<open>
  C2: when \<open>maxLength\<close> and \<open>maxWords\<close> are both absent, \<open>trimText\<close> returns the text as it
  is, whatever the other options are; in particular \<open>stripHTML\<close> removes no tag then.
\<close>

theorem trimText_no_limit:
  assumes "maxLength options = JUndefined" and "maxWords options = JUndefined"
  shows "trimText (JStr text) options = Inr text"
  using assms by (simp add: trimText_def invalid_limit_def)

theorem trimText_no_limit_witness:
  "maxLength (no_options\<lparr>stripHTML := JBool True\<rparr>) = JUndefined
   \<and> maxWords (no_options\<lparr>stripHTML := JBool True\<rparr>) = JUndefined
   \<and> working_text (no_options\<lparr>stripHTML := JBool True\<rparr>) (js ''<b>hi</b>'') = js ''hi''
   \<and> trimText (JStr (js ''<b>hi</b>'')) (no_options\<lparr>stripHTML := JBool True\<rparr>)
       = Inr (js ''<b>hi</b>'')"
proof -
  have h1: "maxLength (no_options\<lparr>stripHTML := JBool True\<rparr>) = JUndefined"
    by (simp add: no_options_def)
  have h2: "maxWords (no_options\<lparr>stripHTML := JBool True\<rparr>) = JUndefined"
    by (simp add: no_options_def)
  have h3: "working_text (no_options\<lparr>stripHTML := JBool True\<rparr>) (js ''<b>hi</b>'') = js ''hi''"
    by code_simp
  show ?thesis
    using h1 h2 h3 trimText_no_limit [OF h1 h2, of "js ''<b>hi</b>''"] by simp
qed

subsection \<open>The pieces of \<open>split(/\s+/)\<close>\<close>







lemma js_slice_take: "0 \<le> k \<Longrightarrow> js_slice xs (Num 0) (Num k) = take (nat k) xs"
  by (simp add: js_slice_def Let_def min_def)





subsection \<open>Pieces and words\<close>











subsection \<open>Trimming by length\<close>

lemma take1_drop: "take (Suc 0) (drop j s) = [c] \<longleftrightarrow> j < length s \<and> s ! j = c"
proof (cases "j < length s")
  case True
  then have "drop j s = s ! j # drop (Suc j) s" by (simp add: Cons_nth_drop_Suc)
  then show ?thesis using True by simp
next
  case False
  then show ?thesis by simp
qed

lemma last_from_char:
  "last_from s [c] i = - 1 \<and> (\<forall>j \<le> i. \<not> (j < length s \<and> s ! j = c))
   \<or> (\<exists>k \<le> i. last_from s [c] i = int k \<and> k < length s \<and> s ! k = c
              \<and> (\<forall>j. k < j \<and> j \<le> i \<longrightarrow> \<not> (j < length s \<and> s ! j = c)))"
proof (induction i)
  case 0
  have "take (Suc 0) s = [c] \<longleftrightarrow> 0 < length s \<and> s ! 0 = c"
    using take1_drop [of 0 s c] by simp
  then show ?case by auto
next
  case (Suc i)
  show ?case
  proof (cases "Suc i < length s \<and> s ! Suc i = c")
    case True
    then have "last_from s [c] (Suc i) = int (Suc i)"
      using take1_drop [of "Suc i" s c] by simp
    then show ?thesis using True by auto
  next
    case False
    then have eq: "last_from s [c] (Suc i) = last_from s [c] i"
      using take1_drop [of "Suc i" s c] by auto
    from Suc.IH show ?thesis
    proof
      assume "last_from s [c] i = - 1 \<and> (\<forall>j\<le>i. \<not> (j < length s \<and> s ! j = c))"
      then show ?thesis using False eq by (auto simp: le_Suc_eq)
    next
      assume "\<exists>k\<le>i. last_from s [c] i = int k \<and> k < length s \<and> s ! k = c \<and>
          (\<forall>j. k < j \<and> j \<le> i \<longrightarrow> \<not> (j < length s \<and> s ! j = c))"
      then obtain k where "k \<le> i" "last_from s [c] i = int k" "k < length s" "s ! k = c"
        "\<forall>j. k < j \<and> j \<le> i \<longrightarrow> \<not> (j < length s \<and> s ! j = c)" by blast
      then have "k \<le> Suc i \<and> last_from s [c] (Suc i) = int k \<and> k < length s \<and> s ! k = c
              \<and> (\<forall>j. k < j \<and> j \<le> Suc i \<longrightarrow> \<not> (j < length s \<and> s ! j = c))"
        using False eq by (auto simp: le_Suc_eq)
      then show ?thesis by blast
    qed
  qed
qed




lemma js_space: "js '' '' = [0x20]"
  by (simp add: js_def)

lemma length_mode_result:
  assumes "maxWords options = JUndefined" and "maxLength options = JNum (Num k)" and "0 < k"
      and "int (length (ellipsis_of options)) \<le> k"
  shows "trimText (JStr text) options =
     Inr (let w = working_text options text;
              p = take (nat (k - int (length (ellipsis_of options)))) w
          in if int (length w) \<le> k then w
             else if truthy (js_default (JBool True) (respectWordBoundaries options))
                     \<and> lastIndexOf p [0x20] \<noteq> - 1
                  then take (nat (lastIndexOf p [0x20])) p @ ellipsis_of options
                  else p @ ellipsis_of options)"
proof -
  have ge: "- 1 \<le> last_from s [c] i" for s c i
    using last_from_char [of s c i] by auto
  have "0 \<le> lastIndexOf s [c]" if "lastIndexOf s [c] \<noteq> - 1" for s c
    using that ge [of s c "length s - Suc 0"] by (auto simp: lastIndexOf_def split: if_splits)
  then show ?thesis using assms
    by (simp add: trimText_def invalid_limit_def len_def js_space js_slice_take Let_def)
qed




text \<open>
  Where the ellipsis is not longer than \<open>maxLength\<close>, the result is not longer than
  \<open>maxLength\<close>.
\<close>

lemma trimText_length_bound:
  assumes "maxWords options = JUndefined" and "maxLength options = JNum (Num k)"
      and "int (length (ellipsis_of options)) \<le> k"
      and "trimText (JStr text) options = Inr r"
  shows "int (length r) \<le> k"
proof (cases "0 < k")
  case True
  have "length (take (nat i) (take (nat (k - int (length (ellipsis_of options)))) w))
          \<le> nat (k - int (length (ellipsis_of options)))" for i w
    by simp
  then show ?thesis
    using length_mode_result [OF assms(1,2) True assms(3), of "text"] assms(3,4)
    by (auto simp: Let_def split: if_splits)
next
  case False
  then show ?thesis using assms by (simp add: trimText_def invalid_limit_def)
qed

text \<open>
  C1 does not hold of the code: with an ellipsis longer than \<open>maxLength\<close> the end index
  \<open>maxLength - ellipsis.length\<close> of the slice is negative and counts from the end of the text,
  so all but the last code units are kept and the result is longer than \<open>maxLength\<close>, with and
  without \<open>respectWordBoundaries\<close>.
\<close>

theorem trimText_short_limit:
  "trimText (JStr (js ''hello world'')) (no_options\<lparr>maxLength := JNum (Num 2)\<rparr>)
     = Inr (js ''hello...'')
   \<and> trimText (JStr (js ''hello world''))
       (no_options\<lparr>maxLength := JNum (Num 2), respectWordBoundaries := JBool False\<rparr>)
     = Inr (js ''hello worl...'')
   \<and> length (js ''hello...'') = 8 \<and> length (js ''hello worl...'') = 13"
  by code_simp

subsection \<open>Validation\<close>

lemma invalid_limit_iff:
  "invalid_limit v \<longleftrightarrow> v \<noteq> JUndefined \<and> (\<forall>n. v = JNum n \<longrightarrow> \<not> positive n \<and> n \<noteq> NaN)"
proof (cases v)
  case (JNum n)
  then show ?thesis by (cases n) (auto simp: invalid_limit_def positive_def)
qed (simp_all add: invalid_limit_def)

lemma trimText_raises:
  "(trimText v options = Inl InvalidInput) = (\<forall>t. v \<noteq> JStr t)"
  "(trimText (JStr t) options = Inl InvalidOption)
     = (invalid_limit (maxLength options) \<or> invalid_limit (maxWords options))"
  "\<not> invalid_limit (maxLength options) \<Longrightarrow> \<not> invalid_limit (maxWords options)
     \<Longrightarrow> \<exists>r. trimText (JStr t) options = Inr r"
  by (cases v; simp add: trimText_def Let_def)+

text \<open>
  C6 does not hold of the code: \<open>NaN\<close> is a number and \<open>NaN <= 0\<close> is false, so a limit that
  is \<open>NaN\<close> passes the validation although it is not a positive number; being falsy, it then
  counts as absent and the text is returned.
\<close>

theorem trimText_NaN_limit:
  "\<not> positive NaN
   \<and> trimText (JStr (js ''abc'')) (no_options\<lparr>maxLength := JNum NaN\<rparr>) = Inr (js ''abc'')
   \<and> trimText (JStr (js ''abc'')) (no_options\<lparr>maxWords := JNum NaN\<rparr>) = Inr (js ''abc'')"
  by (simp add: trimText_def invalid_limit_def no_options_def positive_def)

section \<open>Properties of global replacement\<close>

lemma match_all_set:
  "(p, n) \<in> set (match_all m s i) \<Longrightarrow> i \<le> p \<and> p \<le> length s \<and> m s p = Some n"
proof (induction m s i rule: match_all.induct)
  case (1 m s i)
  show ?case
  proof (cases "length s < i")
    case True
    then show ?thesis using "1.prems" by (simp add: match_all.simps)
  next
    case False
    show ?thesis
    proof (cases "m s i")
      case None
      then have "(p, n) \<in> set (match_all m s (Suc i))"
        using "1.prems" False by (subst (asm) match_all.simps) simp
      from "1.IH"(1) [OF False None this] show ?thesis by simp
    next
      case (Some k)
      then have "(p, n) = (i, k) \<or> (p, n) \<in> set (match_all m s (if k = 0 then Suc i else i + k))"
        using "1.prems" False by (subst (asm) match_all.simps) simp
      then show ?thesis
      proof
        assume "(p, n) = (i, k)"
        then show ?thesis using Some False by simp
      next
        assume "(p, n) \<in> set (match_all m s (if k = 0 then Suc i else i + k))"
        from "1.IH"(2) [OF False Some this] show ?thesis by (simp split: if_splits)
      qed
    qed
  qed
qed

lemma match_all_none:
  assumes "\<forall>i. m s i = None"
  shows "match_all m s j = []"
proof (cases "match_all m s j")
  case Nil
  then show ?thesis .
next
  case (Cons x xs)
  then have "(fst x, snd x) \<in> set (match_all m s j)" by simp
  from match_all_set [OF this] show ?thesis using assms by simp
qed

lemma replace_global_none: "\<forall>i. m s i = None \<Longrightarrow> replace_global m tmpl s = s"
  by (simp add: replace_global_def match_all_none)

lemma substitute_skip:
  assumes "i \<le> j" and "\<forall>(p, n) \<in> set ms. j \<le> p"
  shows "substitute s tmpl i ms = take (j - i) (drop i s) @ substitute s tmpl j ms"
proof (cases ms)
  case Nil
  have "drop (j - i) (drop i s) = drop j s" using assms(1) by simp
  then have "drop i s = take (j - i) (drop i s) @ drop j s"
    by (metis append_take_drop_id)
  then show ?thesis using Nil by simp
next
  case (Cons x xs)
  obtain p n where x: "x = (p, n)" by (cases x)
  then have jp: "j \<le> p" using assms(2) Cons by simp
  have "take (p - i) (drop i s) = take (j - i) (drop i s) @ take (p - j) (drop j s)"
  proof -
    have "p - i = (j - i) + (p - j)" using assms(1) jp by simp
    then have "take (p - i) (drop i s) = take (j - i) (drop i s) @ take (p - j) (drop (j - i) (drop i s))"
      by (simp only: take_add)
    then show ?thesis using assms(1) by simp
  qed
  then show ?thesis using Cons x jp assms(1) by simp
qed

lemma substitute_step:
  "i < length s \<Longrightarrow>
   substitute s tmpl i (match_all m s (Suc i)) = s ! i # substitute s tmpl (Suc i) (match_all m s (Suc i))"
proof -
  assume i: "i < length s"
  have "\<forall>(p, n) \<in> set (match_all m s (Suc i)). Suc i \<le> p"
    using match_all_set [of _ _ m s "Suc i"] by auto
  from substitute_skip [OF _ this, of i s tmpl] show ?thesis
    using i by (simp add: take_Suc_conv_app_nth hd_drop_conv_nth take_Suc)
qed

text \<open>
  Replacement with a pattern that matches single code units (a class): the code units of the
  class give way to their substitutions, one by one.
\<close>

lemma replace_class:
  assumes "\<And>s i. m s i = (if i < length s \<and> P (s ! i) then Some 1 else None)"
  shows "i \<le> length s \<Longrightarrow>
         substitute s tmpl i (match_all m s i)
           = concat (map (\<lambda>(j, c). if P c then get_substitution [c] s j tmpl else [c])
                      (zip [i ..< length s] (drop i s)))"
proof (induction "length s - i" arbitrary: i)
  case 0
  then have i: "i = length s" by simp
  have "match_all m s i = []"
    by (subst match_all.simps, simp add: assms i, subst match_all.simps, simp)
  then show ?case using i by simp
next
  case (Suc d)
  then have i: "i < length s" by simp
  have ih: "substitute s tmpl (Suc i) (match_all m s (Suc i))
           = concat (map (\<lambda>(j, c). if P c then get_substitution [c] s j tmpl else [c])
                      (zip [Suc i ..< length s] (drop (Suc i) s)))"
    using Suc.hyps(1) [of "Suc i"] Suc.hyps(2) i by simp
  have z: "zip [i ..< length s] (drop i s) = (i, s ! i) # zip [Suc i ..< length s] (drop (Suc i) s)"
    using i by (simp add: upt_conv_Cons Cons_nth_drop_Suc [symmetric])
  show ?case
  proof (cases "P (s ! i)")
    case True
    have "match_all m s i = (i, 1) # match_all m s (Suc i)"
      using i True by (subst match_all.simps) (simp add: assms)
    moreover have "take (Suc 0) (drop i s) = [s ! i]"
      using i by (simp add: take_Suc hd_drop_conv_nth)
    ultimately show ?thesis using True ih z by simp
  next
    case False
    have "match_all m s i = match_all m s (Suc i)"
      using i False by (subst match_all.simps) (simp add: assms)
    then show ?thesis using False ih z substitute_step [OF i, of tmpl m] by simp
  qed
qed

lemma escape_template: "get_substitution [c] s j (0x5C # js ''$&'') = [0x5C, c]"
  by (simp add: js_def)

lemma escapeRegExp_eq:
  "escapeRegExp s = concat (map (\<lambda>c. if syntax_char c then [0x5C, c] else [c]) s)"
proof -
  define f :: "jschar \<Rightarrow> jsstring" where "f = (\<lambda>c. if syntax_char c then [0x5C, c] else [c])"
  have "escapeRegExp s
      = concat (map (\<lambda>(j, c). if syntax_char c then get_substitution [c] s j (0x5C # js ''$&'') else [c])
                      (zip [0 ..< length s] (drop 0 s)))"
    unfolding escapeRegExp_def replace_global_def
    by (rule replace_class) (simp_all add: re_syntax_def)
  also have "\<dots> = concat (map (f \<circ> snd) (zip [0 ..< length s] s))"
    by (simp add: escape_template f_def case_prod_unfold comp_def cong: if_cong)
  also have "map (f \<circ> snd) (zip [0 ..< length s] s) = map f (map snd (zip [0 ..< length s] s))"
    by (simp only: map_map)
  also have "map snd (zip [0 ..< length s] s) = s"
    by (simp add: map_snd_zip)
  finally show ?thesis by (simp only: f_def)
qed

section \<open>Properties of escapeRegExp and of the patterns built from it\<close>

lemma syntax_char_simps [simp]: "syntax_char 0x5C" "\<not> syntax_char 0x62"
  by (simp_all add: syntax_char_def js_def)

lemma parse_pattern_plain:
  "\<not> syntax_char c \<Longrightarrow> parse_pattern (c # rest) = map_option ((#) (Lit c)) (parse_pattern rest)"
  by (cases rest) auto

lemma parse_pattern_escaped:
  "syntax_char c \<Longrightarrow>
   parse_pattern (0x5C # c # rest) = map_option ((#) (Lit c)) (parse_pattern rest)"
  by auto

lemma parse_pattern_literal:
  "parse_pattern (concat (map (\<lambda>c. if syntax_char c then [0x5C, c] else [c]) s) @ rest)
     = map_option ((@) (map Lit s)) (parse_pattern rest)"
proof (induction s)
  case Nil
  show ?case by (simp add: option.map_ident)
next
  case (Cons c s)
  show ?case
  proof (cases "syntax_char c")
    case True
    then show ?thesis
      using Cons parse_pattern_escaped [OF True] by (simp add: option.map_comp comp_def)
  next
    case False
    then show ?thesis
      using Cons parse_pattern_plain [OF False] by (simp add: option.map_comp comp_def)
  qed
qed

lemma parse_pattern_escapeRegExp: "parse_pattern (escapeRegExp s) = Some (map Lit s)"
  using parse_pattern_literal [of s "[]"] by (simp add: escapeRegExp_eq)

lemma parse_pattern_tail:
  "parse_pattern (escapeRegExp s @ [0x5C, 0x62]) = Some (map Lit s @ [WordBoundary])"
proof -
  have "parse_pattern [0x5C, 0x62] = Some [WordBoundary]" by simp
  then show ?thesis
    using parse_pattern_literal [of s "[0x5C, 0x62]"] by (simp add: escapeRegExp_eq)
qed

lemma match_atoms_literal:
  "match_atoms uc ic (map Lit t @ as) s i =
     (if map (canonicalize uc ic) (take (length t) (drop i s)) = map (canonicalize uc ic) t
      then match_atoms uc ic as s (i + length t) else None)"
proof (induction t arbitrary: i)
  case Nil
  show ?case by simp
next
  case (Cons c t)
  show ?case
  proof (cases "i < length s")
    case True
    then have d: "drop i s = s ! i # drop (Suc i) s" by (simp add: Cons_nth_drop_Suc)
    show ?thesis using True Cons [of "Suc i"] by (simp add: d)
  next
    case False
    then show ?thesis by simp
  qed
qed

lemma term_regex:
  assumes "term \<noteq> []"
  shows "\<exists>regex. RegExp_new (term_source options term) (term_flags options) = Some regex
           \<and> (\<forall>s i. re_exec uc regex s i
                       = (if occurs_at uc options term s i then Some (length term) else None))"
proof -
  define ic where "ic = (\<not> truthy (js_default (JBool False) (caseSensitive options)))"
  have fl: "(0x69 \<in> set (term_flags options)) = ic"
    by (simp add: term_flags_def ic_def js_def)
  show ?thesis
  proof (cases "truthy (js_default (JBool False) (wholeWords options))")
    case True
    have "re_exec uc \<lparr>atoms = WordBoundary # map Lit term @ [WordBoundary], ignoreCase = ic\<rparr> s i
            = (if occurs_at uc options term s i then Some (length term) else None)" for s i
      using True match_atoms_literal [of uc ic "term" "[WordBoundary]" s i]
      by (simp add: re_exec_def occurs_at_def ic_def)
    then show ?thesis
      using True by (simp add: RegExp_new_def term_source_def parse_pattern_tail fl)
  next
    case False
    have "re_exec uc \<lparr>atoms = map Lit term, ignoreCase = ic\<rparr> s i
            = (if occurs_at uc options term s i then Some (length term) else None)" for s i
      using False match_atoms_literal [of uc ic "term" "[]" s i]
      by (simp add: re_exec_def occurs_at_def ic_def)
    then show ?thesis
      using False by (simp add: RegExp_new_def term_source_def parse_pattern_escapeRegExp fl)
  qed
qed

text \<open>
  C7: \<open>escapeRegExp\<close> puts a backslash before every code unit of the class
  \<open>. * + ? ^ $ { } ( ) | [ ] \\<close> and keeps every other code unit; the pattern built from the
  result is the sequence of the literal code units of \<open>s\<close>, so that, matched as it is (no
  \<open>i\<close> flag), it matches at an index of a text exactly when \<open>s\<close> stands there, and what it
  matches is \<open>s\<close>. The function is total on strings.
\<close>

theorem escapeRegExp_literal:
  "escapeRegExp s = concat (map (\<lambda>c. if syntax_char c then [0x5C, c] else [c]) s)
   \<and> (\<exists>regex. RegExp_new (escapeRegExp s) (js ''g'') = Some regex
         \<and> (\<forall>t i. re_exec uc regex t i
                     = (if take (length s) (drop i t) = s then Some (length s) else None)))"
proof -
  have c: "canonicalize uc False = id" by (simp add: canonicalize_def fun_eq_iff)
  have "re_exec uc \<lparr>atoms = map Lit s, ignoreCase = False\<rparr> t i
          = (if take (length s) (drop i t) = s then Some (length s) else None)" for t i
    using match_atoms_literal [of uc False s "[]" t i] by (simp add: re_exec_def c)
  then show ?thesis
    by (simp add: escapeRegExp_eq [symmetric] RegExp_new_def parse_pattern_escapeRegExp js_def)
qed

theorem escapeRegExp_literal_witness:
  "escapeRegExp (js ''a.b*c'') = js ''a'' @ [0x5C] @ js ''.b'' @ [0x5C] @ js ''*c''
   \<and> (\<exists>regex. RegExp_new (escapeRegExp (js ''a.b*c'')) (js ''g'') = Some regex
         \<and> re_exec ascii_upper regex (js ''a.b*c'') 0 = Some 5
         \<and> re_exec ascii_upper regex (js ''aXb*c'') 0 = None
         \<and> re_exec ascii_upper regex (js ''a.bbc'') 0 = None
         \<and> re_exec ascii_upper regex (js ''xa.b*cy'') 1 = Some 5)"
proof -
  have e: "concat (map (\<lambda>c. if syntax_char c then [0x5C, c] else [c]) (js ''a.b*c''))
             = js ''a'' @ [0x5C] @ js ''.b'' @ [0x5C] @ js ''*c''"
    by code_simp
  from escapeRegExp_literal [of "js ''a.b*c''" ascii_upper]
  obtain regex where r: "RegExp_new (escapeRegExp (js ''a.b*c'')) (js ''g'') = Some regex"
    "\<And>t i. re_exec ascii_upper regex t i
        = (if take (length (js ''a.b*c'')) (drop i t) = js ''a.b*c''
           then Some (length (js ''a.b*c'')) else None)"
    by blast
  have "re_exec ascii_upper regex (js ''a.b*c'') 0 = Some 5"
       "re_exec ascii_upper regex (js ''aXb*c'') 0 = None"
       "re_exec ascii_upper regex (js ''a.bbc'') 0 = None"
       "re_exec ascii_upper regex (js ''xa.b*cy'') 1 = Some 5"
    unfolding r(2) by (simp_all add: js_def)
  then show ?thesis
    using escapeRegExp_literal [of "js ''a.b*c''" ascii_upper, THEN conjunct1] r(1)
    by (simp only: e) blast
qed

section \<open>Properties of highlightText\<close>

lemma occurs_at_index:
  assumes "occurs_at uc options term s i" and "term \<noteq> []"
  shows "i + length term \<le> length s"
proof -
  have "length (take (length term) (drop i s)) = length term"
    using assms(1) unfolding occurs_at_def Let_def by (metis length_map)
  then show ?thesis using assms(2) by (cases "i \<le> length s") (auto simp: min_def split: if_splits)
qed

lemma forEach_term_no_match:
  assumes "\<forall>term. JStr term \<in> set ts \<longrightarrow> term \<noteq> [] \<longrightarrow> (\<forall>i. \<not> occurs_at uc options term s i)"
  shows "forEach_term uc options ts s = Inr s"
  using assms
proof (induction ts)
  case Nil
  show ?case by simp
next
  case (Cons t ts)
  then have ih: "forEach_term uc options ts s = Inr s" by simp
  show ?case
  proof (cases t)
    case (JStr tm)
    show ?thesis
    proof (cases "tm = []")
      case True
      then show ?thesis using JStr ih by simp
    next
      case False
      from term_regex [OF False, of options uc] obtain regex where
        r: "RegExp_new (term_source options tm) (term_flags options) = Some regex"
           "\<And>s i. re_exec uc regex s i
               = (if occurs_at uc options tm s i then Some (length tm) else None)"
        by blast
      have "\<forall>i. \<not> occurs_at uc options tm s i" using Cons.prems JStr False by simp
      then have "\<forall>i. re_exec uc regex s i = None" by (simp add: r(2))
      then have "replace_global (re_exec uc regex) tmpl s = s" for tmpl
        by (rule replace_global_none)
      then show ?thesis using JStr False r(1) ih by simp
    qed
  qed (use ih in simp_all)
qed

text \<open>
  C10: when no term of the list that is a non-empty string occurs anywhere in the text under
  the \<open>caseSensitive\<close> and \<open>wholeWords\<close> settings, every pass of the fold leaves the
  accumulated text as it is and \<open>highlightText\<close> returns the text unchanged.
\<close>

theorem highlightText_no_match:
  assumes "\<forall>term. JStr term \<in> set (termList terms) \<longrightarrow> term \<noteq> []
             \<longrightarrow> (\<forall>i. \<not> occurs_at uc options term text i)"
  shows "highlightText uc (JStr text) terms options = Inr text"
  using forEach_term_no_match [OF assms] by (simp add: highlightText_def)

theorem highlightText_no_match_witness:
  "highlightText ascii_upper (JStr (js ''cats''))
     (JArr [JStr (js ''dog''), JNum (Num 5), JStr [], JStr (js ''cat'')])
     (no_highlight_options\<lparr>wholeWords := JBool True\<rparr>) = Inr (js ''cats'')"
proof -
  let ?o = "no_highlight_options\<lparr>wholeWords := JBool True\<rparr>"
  have d: "\<not> occurs_at ascii_upper ?o (js ''dog'') (js ''cats'') 0"
          "\<not> occurs_at ascii_upper ?o (js ''dog'') (js ''cats'') 1"
    by code_simp+
  have c: "\<not> occurs_at ascii_upper ?o (js ''cat'') (js ''cats'') 0"
          "\<not> occurs_at ascii_upper ?o (js ''cat'') (js ''cats'') 1"
    by code_simp+
  have l: "length (js ''dog'') = 3" "length (js ''cat'') = 3" "length (js ''cats'') = 4"
    by (simp_all add: js_def)
  have n: "\<not> occurs_at ascii_upper ?o tm (js ''cats'') i"
    if "tm = js ''dog'' \<or> tm = js ''cat''" for tm i
  proof
    assume o: "occurs_at ascii_upper ?o tm (js ''cats'') i"
    have "tm \<noteq> []" "length tm = 3" using that l by auto
    with occurs_at_index [OF o] have "i = 0 \<or> i = 1" using l by auto
    then show False using o that c d by auto
  qed
  have "\<forall>tm. JStr tm \<in> set (termList (JArr [JStr (js ''dog''), JNum (Num 5), JStr [],
                                               JStr (js ''cat'')]))
          \<longrightarrow> tm \<noteq> [] \<longrightarrow> (\<forall>i. \<not> occurs_at ascii_upper ?o tm (js ''cats'') i)"
    using n by (simp add: termList_def)
  from highlightText_no_match [OF this] show ?thesis .
qed

text \<open>
  C9, as stated, fails: the word boundary of \<open>wholeWords\<close> is the \<open>\b\<close> of regular expressions,
  not a break at white space. In \<open>cat-dog\<close>, one word between white space, the term \<open>cat\<close> is a
  proper part and is wrapped, since the hyphen is not a word character.
\<close>

theorem highlightText_hyphen_counterexample:
  "\<not> is_space 0x2D
   \<and> highlightText ascii_upper (JStr (js ''cat-dog'')) (JStr (js ''cat''))
         (no_highlight_options\<lparr>wholeWords := JBool True\<rparr>)
       = Inr (js ''<mark>cat</mark>-dog'')"
  by code_simp

lemma highlightText_single:
  assumes "tm \<noteq> []"
  shows "\<exists>regex. RegExp_new (term_source options tm) (term_flags options) = Some regex
           \<and> (\<forall>s i. re_exec uc regex s i
                       = (if occurs_at uc options tm s i then Some (length tm) else None))
           \<and> highlightText uc (JStr text) (JStr tm) options
               = Inr (substitute text
                        (highlightStart_of options @ js ''$&'' @ highlightEnd_of options) 0
                        (match_all (re_exec uc regex) text 0))"
proof -
  from term_regex [OF assms, of options uc] obtain regex where
    r: "RegExp_new (term_source options tm) (term_flags options) = Some regex"
       "\<forall>s i. re_exec uc regex s i
           = (if occurs_at uc options tm s i then Some (length tm) else None)"
    by blast
  have "highlightText uc (JStr text) (JStr tm) options
          = Inr (substitute text
                   (highlightStart_of options @ js ''$&'' @ highlightEnd_of options) 0
                   (match_all (re_exec uc regex) text 0))"
    using assms r(1) by (simp add: highlightText_def termList_def replace_global_def)
  then show ?thesis using r by blast
qed

text \<open>
  C9 (amended): with \<open>wholeWords\<close> set, \<open>highlightText\<close> substitutes only at occurrences of the
  term that start and end at a word boundary in the sense of \<open>\b\<close>: an index where exactly one
  of the code units before and after it is a word character \<open>[A-Za-z0-9_]\<close>, the ends of the
  text counting as non-word. An occurrence inside a longer run of word characters is therefore
  never wrapped; in particular the term \<open>cat\<close> leaves \<open>cats\<close> unchanged.
\<close>

theorem highlightText_whole_words:
  assumes "truthy (js_default (JBool False) (wholeWords options))" and "tm \<noteq> []"
  shows "(\<exists>ms. highlightText uc (JStr text) (JStr tm) options
                 = Inr (substitute text
                          (highlightStart_of options @ js ''$&'' @ highlightEnd_of options) 0 ms)
              \<and> (\<forall>(i, n) \<in> set ms. n = length tm \<and> i + n \<le> length text
                     \<and> occurs_at uc options tm text i
                     \<and> at_boundary text i \<and> at_boundary text (i + n)))
       \<and> highlightText uc (JStr (js ''cats'')) (JStr (js ''cat''))
             (no_highlight_options\<lparr>wholeWords := JBool True\<rparr>) = Inr (js ''cats'')"
proof -
  have gen: "\<exists>ms. highlightText uc (JStr s) (JStr t) opts
                 = Inr (substitute s
                          (highlightStart_of opts @ js ''$&'' @ highlightEnd_of opts) 0 ms)
              \<and> (\<forall>(i, n) \<in> set ms. n = length t \<and> i + n \<le> length s
                     \<and> occurs_at uc opts t s i
                     \<and> at_boundary s i \<and> at_boundary s (i + n))"
    if ww: "truthy (js_default (JBool False) (wholeWords opts))" and ne: "t \<noteq> []"
    for opts t s
  proof -
    from highlightText_single [OF ne, of opts uc s] obtain regex where
      r: "\<And>s i. re_exec uc regex s i
           = (if occurs_at uc opts t s i then Some (length t) else None)"
      and h: "highlightText uc (JStr s) (JStr t) opts
               = Inr (substitute s
                        (highlightStart_of opts @ js ''$&'' @ highlightEnd_of opts) 0
                        (match_all (re_exec uc regex) s 0))"
      by blast
    have "n = length t \<and> i + n \<le> length s \<and> occurs_at uc opts t s i
            \<and> at_boundary s i \<and> at_boundary s (i + n)"
      if "(i, n) \<in> set (match_all (re_exec uc regex) s 0)" for i n
    proof -
      from match_all_set [OF that] have "re_exec uc regex s i = Some n" by simp
      then have o: "occurs_at uc opts t s i" and n: "n = length t"
        by (auto simp: r split: if_splits)
      from o ww have "at_boundary s i \<and> at_boundary s (i + length t)"
        by (simp add: occurs_at_def Let_def)
      then show ?thesis using o n occurs_at_index [OF o ne] by simp
    qed
    then show ?thesis using h by blast
  qed
  let ?o = "no_highlight_options\<lparr>wholeWords := JBool True\<rparr>"
  have ww: "truthy (js_default (JBool False) (wholeWords ?o))"
    by (simp add: no_highlight_options_def js_default_def)
  have l: "js ''cat'' \<noteq> []" "length (js ''cat'') = 3" "length (js ''cats'') = 4"
    by (simp_all add: js_def)
  have b: "\<not> at_boundary (js ''cats'') 1" "\<not> at_boundary (js ''cats'') 3"
    by code_simp+
  from gen [OF ww l(1), of "js ''cats''"] obtain ms where
    h: "highlightText uc (JStr (js ''cats'')) (JStr (js ''cat'')) ?o
          = Inr (substitute (js ''cats'')
                   (highlightStart_of ?o @ js ''$&'' @ highlightEnd_of ?o) 0 ms)"
    and m: "\<forall>(i, n) \<in> set ms. n = length (js ''cat'') \<and> i + n \<le> length (js ''cats'')
              \<and> occurs_at uc ?o (js ''cat'') (js ''cats'') i
              \<and> at_boundary (js ''cats'') i \<and> at_boundary (js ''cats'') (i + n)"
    by blast
  have "ms = []"
  proof (cases ms)
    case (Cons x xs)
    obtain i n where x: "x = (i, n)" by (cases x)
    with m Cons have "n = 3" "i + n \<le> 4" "at_boundary (js ''cats'') i"
      "at_boundary (js ''cats'') (i + n)" using l by auto
    then have "i = 0 \<or> i = 1" by auto
    then show ?thesis using \<open>n = 3\<close> \<open>at_boundary (js ''cats'') i\<close>
        \<open>at_boundary (js ''cats'') (i + n)\<close> b by auto
  qed simp
  then have "highlightText uc (JStr (js ''cats'')) (JStr (js ''cat'')) ?o = Inr (js ''cats'')"
    using h by simp
  then show ?thesis using gen [OF assms] by blast
qed

theorem highlightText_whole_words_witness:
  "(\<exists>ms. highlightText ascii_upper (JStr (js ''a cat, cats'')) (JStr (js ''cat''))
            (no_highlight_options\<lparr>wholeWords := JBool True\<rparr>)
          = Inr (substitute (js ''a cat, cats'') (js ''<mark>$&</mark>'') 0 ms)
       \<and> list_all (\<lambda>(i, n). n = 3 \<and> at_boundary (js ''a cat, cats'') i
                      \<and> at_boundary (js ''a cat, cats'') (i + n)) ms)
   \<and> highlightText ascii_upper (JStr (js ''cats'')) (JStr (js ''cat''))
         (no_highlight_options\<lparr>wholeWords := JBool True\<rparr>) = Inr (js ''cats'')"
proof -
  let ?o = "no_highlight_options\<lparr>wholeWords := JBool True\<rparr>"
  have ww: "truthy (js_default (JBool False) (wholeWords ?o))"
    by (simp add: no_highlight_options_def js_default_def)
  have l: "js ''cat'' \<noteq> []" "length (js ''cat'') = 3" by (simp_all add: js_def)
  have t: "highlightStart_of ?o @ js ''$&'' @ highlightEnd_of ?o = js ''<mark>$&</mark>''"
    by (simp add: highlightStart_of_def highlightEnd_of_def no_highlight_options_def js_def)
  note w = highlightText_whole_words [OF ww l(1), of ascii_upper "js ''a cat, cats''"]
  from w [THEN conjunct1] obtain ms where
    h: "highlightText ascii_upper (JStr (js ''a cat, cats'')) (JStr (js ''cat'')) ?o
          = Inr (substitute (js ''a cat, cats'') (js ''<mark>$&</mark>'') 0 ms)"
    and m: "\<forall>(i, n) \<in> set ms. n = length (js ''cat'')
              \<and> i + n \<le> length (js ''a cat, cats'')
              \<and> occurs_at ascii_upper ?o (js ''cat'') (js ''a cat, cats'') i
              \<and> at_boundary (js ''a cat, cats'') i \<and> at_boundary (js ''a cat, cats'') (i + n)"
    unfolding t by blast
  have "list_all (\<lambda>(i, n). n = 3 \<and> at_boundary (js ''a cat, cats'') i
                      \<and> at_boundary (js ''a cat, cats'') (i + n)) ms"
    unfolding list_all_iff using m l(2) by auto
  with h have "\<exists>ms. highlightText ascii_upper (JStr (js ''a cat, cats'')) (JStr (js ''cat'')) ?o
          = Inr (substitute (js ''a cat, cats'') (js ''<mark>$&</mark>'') 0 ms)
       \<and> list_all (\<lambda>(i, n). n = 3 \<and> at_boundary (js ''a cat, cats'') i
                      \<and> at_boundary (js ''a cat, cats'') (i + n)) ms"
    by (intro exI conjI)
  then show ?thesis using w [THEN conjunct2] by (intro conjI)
qed

subsection \<open>The fold over the terms\<close>

text \<open>
  Every pattern \<open>highlightText\<close> builds is in the modelled fragment; highlighting a list of
  terms is highlighting the first one and then the others on that result; and a match gives way
  to \<open>highlightStart + match + highlightEnd\<close> when neither marker holds a dollar sign.
\<close>

lemma forEach_term_supported: "\<exists>r. forEach_term uc options ts s = Inr r"
proof (induction ts arbitrary: s)
  case Nil
  show ?case by simp
next
  case (Cons t ts)
  show ?case
  proof (cases t)
    case (JStr tm)
    show ?thesis
    proof (cases "tm = []")
      case True
      then show ?thesis using JStr Cons by simp
    next
      case False
      from term_regex [OF False, of options uc] obtain regex where
        "RegExp_new (term_source options tm) (term_flags options) = Some regex" by blast
      then show ?thesis using JStr False Cons by simp
    qed
  qed (use Cons in simp_all)
qed

lemma forEach_term_Cons:
  "forEach_term uc options (t # ts) s =
     (case forEach_term uc options [t] s of
        Inl e \<Rightarrow> Inl e
      | Inr r \<Rightarrow> forEach_term uc options ts r)"
proof (cases t)
  case (JStr tm)
  then show ?thesis by (simp split: option.splits)
qed simp_all

lemma highlightText_fold:
  "highlightText uc (JStr s) (JArr (t # ts)) options =
     (case highlightText uc (JStr s) (JArr [t]) options of
        Inl e \<Rightarrow> Inl e
      | Inr r \<Rightarrow> highlightText uc (JStr r) (JArr ts) options)"
proof -
  have r: "highlightText uc (JStr r) (JArr ts) options = forEach_term uc options ts r" for r
    by (cases ts) (simp_all add: highlightText_def termList_def)
  have "highlightText uc (JStr s) (JArr (t # ts)) options = forEach_term uc options (t # ts) s"
       "highlightText uc (JStr s) (JArr [t]) options = forEach_term uc options [t] s"
    by (simp_all add: highlightText_def termList_def)
  then show ?thesis
    by (simp only: r forEach_term_Cons [of uc options t ts s])
qed

lemma get_substitution_plain: "0x24 \<notin> set t \<Longrightarrow> get_substitution m s p t = t"
  by (induction m s p t rule: get_substitution.induct) auto

lemma get_substitution_wrap:
  assumes "0x24 \<notin> set hs" and "0x24 \<notin> set he"
  shows "get_substitution m s p (hs @ js ''$&'' @ he) = hs @ m @ he"
  using assms(1)
proof (induction hs)
  case Nil
  show ?case using get_substitution_plain [OF assms(2)] by (simp add: js_def)
next
  case (Cons c hs)
  then have "get_substitution m s p (c # (hs @ js ''$&'' @ he))
               = c # get_substitution m s p (hs @ js ''$&'' @ he)"
    by (cases "hs @ js ''$&'' @ he") auto
  then show ?case using Cons by simp
qed

text \<open>
  C8 does not hold of the code where a marker holds a dollar sign: the markers are spliced into
  the replacement template, where \<open>$$\<close>, \<open>$&\<close>, \<open>$`\<close> and \<open>$'\<close> are patterns. With both markers
  \<open>$\<close> the template is \<open>$$&$\<close>, which stands for \<open>$&$\<close>, and the match is lost instead of
  wrapped.
\<close>

theorem highlightText_dollar_marker:
  "highlightText ascii_upper (JStr (js ''cat'')) (JStr (js ''cat''))
     (no_highlight_options\<lparr>highlightStart := Some (js ''$''), highlightEnd := Some (js ''$'')\<rparr>)
     = Inr (js ''$&$'')"
  by code_simp

theorem highlightText_dollar_marker_witness:
  "highlightText ascii_upper (JStr (js ''cat'')) (JStr (js ''cat''))
     (no_highlight_options\<lparr>highlightStart := Some (js ''$''), highlightEnd := Some (js ''$'')\<rparr>)
     \<noteq> Inr (js ''$'' @ js ''cat'' @ js ''$'')"
  using highlightText_dollar_marker by (simp add: js_def)

end
